theory Spec2Isabelle
  imports Complex_Main
begin

section \<open>Values, results and outcomes\<close>

text \<open>
  A Go call either returns or panics. A panic (an index out of range, a nil
  pointer dereference) unwinds the call, so it is a value of the model.
\<close>

datatype 'a outcome = Panic | Return 'a

text \<open>
  The tree that \<open>json.Unmarshal\<close> builds when it decodes into an
  \<open>interface{}\<close>: nil, bool, float64, string, \<open>[]interface{}\<close> and
  \<open>map[string]interface{}\<close>. A float64 decoded from JSON text is finite, hence a
  rational. A decoded map is given by the list of its entries and a lookup is
  \<open>map_of\<close>; where the code ranges over the map, the order of the list is the order
  of the visits.
\<close>

datatype json =
    JNull
  | JBool bool
  | JNumber rat
  | JString string
  | JArray "json list"
  | JObject "(string \<times> json) list"

text \<open>
  Modelled from the spec: the \<open>Result\<close> struct, whose declaration is not in
  agent.go. The spec gives it a success flag, an opaque data payload, an optional
  error and an optional next-agent reference; agent.go and the tests name the first
  three fields. An error is kept as its message, a nil error as \<open>None\<close>, and the
  next agent as an address in the agent store.
\<close>

record 'v Result =
  Success :: bool
  Data :: "'v option"
  Error :: "string option"
  NextAgent :: "nat option"

section \<open>Agent functions\<close>

text \<open>
  \<open>AgentFunction[map[string]interface{}]\<close>: the type-erased tool. A value of
  \<open>map[string]interface{}\<close> that is only looked up is a map \<open>string \<rightharpoonup> 'v\<close>.
  The executor may panic, as any Go function may.
\<close>

record 'v AgentFunction =
  af_Name :: string
  af_Description :: string
  params :: "string \<rightharpoonup> json"
  executor :: "(string \<rightharpoonup> 'v) \<Rightarrow> (string \<rightharpoonup> 'v) \<Rightarrow> 'v Result outcome"

text \<open>\<open>llm.Function\<close>, as \<open>FunctionToDefinition\<close> fills it.\<close>

record llm_Function =
  fn_Name :: string
  fn_Description :: string
  fn_Parameters :: "string \<rightharpoonup> json"

definition FunctionToDefinition :: "'v AgentFunction \<Rightarrow> llm_Function" where
  "FunctionToDefinition af =
     \<lparr>fn_Name = af_Name af, fn_Description = af_Description af, fn_Parameters = params af\<rparr>"

text \<open>
  The zero value of \<open>AgentFunction\<close>: empty strings, a nil map, which holds no key,
  and a nil executor, which panics when it is called.
\<close>

definition zero_AgentFunction :: "'v AgentFunction" where
  "zero_AgentFunction =
     \<lparr>af_Name = [], af_Description = [], params = Map.empty,
      executor = (\<lambda>args contextVariables. Panic)\<rparr>"

section \<open>Slices\<close>

text \<open>
  \<open>Functions\<close> is a slice, and \<open>WithFunctions\<close> calls \<open>append\<close> on it. A
  slice is a header: the backing array it points into (none for the nil slice), the
  offset of its first element there, its length and its capacity. Two headers may
  point into one array, as the headers of an agent and of a copy of that agent do, so
  the backing arrays live in a store of their own, the list of the arrays allocated so
  far, and an array is the list of its cells.
\<close>

record slice =
  sl_array :: "nat option"
  sl_off :: nat
  sl_len :: nat
  sl_cap :: nat

definition nil_slice :: slice where
  "nil_slice = \<lparr>sl_array = None, sl_off = 0, sl_len = 0, sl_cap = 0\<rparr>"

text \<open>
  The runtime keeps every header within its array: the capacity ends inside the
  array and the length is within the capacity.
\<close>

definition valid_slice :: "'a list list \<Rightarrow> slice \<Rightarrow> bool" where
  "valid_slice arrs s =
     (case sl_array s of
        None \<Rightarrow> sl_len s = 0 \<and> sl_cap s = 0
      | Some p \<Rightarrow> p < length arrs \<and> sl_off s + sl_cap s \<le> length (arrs ! p) \<and> sl_len s \<le> sl_cap s)"

text \<open>The elements of a slice: the first \<open>len\<close> cells from its offset on.\<close>

definition read_slice :: "'a list list \<Rightarrow> slice \<Rightarrow> 'a list" where
  "read_slice arrs s =
     (case sl_array s of
        None \<Rightarrow> []
      | Some p \<Rightarrow> take (sl_len s) (drop (sl_off s) (arrs ! p)))"

text \<open>Writing \<open>xs\<close> into the cells of an array from index \<open>i\<close> on.\<close>

definition write_cells :: "'a list \<Rightarrow> nat \<Rightarrow> 'a list \<Rightarrow> 'a list" where
  "write_cells cells i xs = take i cells @ xs @ drop (i + length xs) cells"

text \<open>
  The builtin \<open>append(s, xs...)\<close>. Where the capacity of \<open>s\<close> suffices, the
  elements are written into the backing array of \<open>s\<close>, behind its last element, and
  the result is the header of \<open>s\<close> with the new length: every other header into that
  array sees the cells that were written. Otherwise a new array is allocated, of a
  capacity the runtime chooses (\<open>growslice\<close>, a parameter) and never less than the
  new length; it holds the elements of \<open>s\<close>, then \<open>xs\<close>, then zero values. There
  is no result for a header that is not within its array, which Go never builds.
\<close>

definition append_slice ::
  "(nat \<Rightarrow> nat \<Rightarrow> nat) \<Rightarrow> 'a \<Rightarrow> slice \<Rightarrow> 'a list \<Rightarrow> 'a list list \<Rightarrow> (slice \<times> 'a list list) option" where
  "append_slice growslice zero s xs arrs =
     (if \<not> valid_slice arrs s then None
      else if sl_len s + length xs \<le> sl_cap s then
        (case sl_array s of
           None \<Rightarrow> Some (s, arrs)
         | Some p \<Rightarrow>
             Some (s\<lparr>sl_len := sl_len s + length xs\<rparr>,
                   arrs[p := write_cells (arrs ! p) (sl_off s + sl_len s) xs]))
      else
        (let newcap = max (sl_len s + length xs) (growslice (sl_cap s) (sl_len s + length xs))
         in Some (\<lparr>sl_array = Some (length arrs), sl_off = 0,
                    sl_len = sl_len s + length xs, sl_cap = newcap\<rparr>,
                  arrs @ [read_slice arrs s @ xs @
                          replicate (newcap - (sl_len s + length xs)) zero])))"

section \<open>Agents and the agent store\<close>

text \<open>
  The \<open>Agent\<close> struct. The provider, the client configuration and the memory
  store are declared outside agent.go and stay type parameters; a pointer field that
  may be nil is an option.
\<close>

record ('v, 'p, 'c, 'm) Agent =
  Name :: string
  Model :: string
  Provider :: 'p
  Config :: "'c option"
  Instructions :: string
  InstructionsFunc :: "((string \<rightharpoonup> 'v) \<Rightarrow> string) option"
  Functions :: slice
  Memory :: "'m option"
  ParallelToolCalls :: bool

text \<open>
  The builders take and return \<open>*Agent\<close> and write through the pointer, so agents
  live in a store: the list of allocated agents, a pointer being an index into it.
  Dereferencing a pointer that addresses no agent (nil) panics. A builder takes the
  parts of the memory it reads or writes: the agents, and for \<open>WithFunctions\<close> the
  backing arrays as well.
\<close>

type_synonym ('v, 'p, 'c, 'm) store = "('v, 'p, 'c, 'm) Agent list"

type_synonym 'v arrays = "'v AgentFunction list list"

definition deref :: "('v, 'p, 'c, 'm) store \<Rightarrow> nat \<Rightarrow> ('v, 'p, 'c, 'm) Agent option" where
  "deref h a = (if a < length h then Some (h ! a) else None)"

definition NewAgent ::
  "(nat \<Rightarrow> 'm option) \<Rightarrow> string \<Rightarrow> string \<Rightarrow> 'p \<Rightarrow> ('v, 'p, 'c, 'm) store
     \<Rightarrow> nat \<times> ('v, 'p, 'c, 'm) store" where
  "NewAgent NewMemoryStore name model provider h =
     (length h,
      h @ [\<lparr>Name = name, Model = model, Provider = provider, Config = None,
             Instructions = [], InstructionsFunc = None, Functions = nil_slice,
             Memory = NewMemoryStore 100, ParallelToolCalls = False\<rparr>])"

definition WithFunctions ::
  "(nat \<Rightarrow> nat \<Rightarrow> nat) \<Rightarrow> nat \<Rightarrow> 'v AgentFunction list \<Rightarrow> ('v, 'p, 'c, 'm) store \<Rightarrow> 'v arrays
     \<Rightarrow> (nat \<times> ('v, 'p, 'c, 'm) store \<times> 'v arrays) outcome" where
  "WithFunctions growslice a functions h arrs =
     (case deref h a of
        None \<Rightarrow> Panic
      | Some ag \<Rightarrow>
          (case append_slice growslice zero_AgentFunction (Functions ag) functions arrs of
             None \<Rightarrow> Panic
           | Some (s, arrs') \<Rightarrow> Return (a, h[a := ag\<lparr>Functions := s\<rparr>], arrs')))"

definition WithConfig ::
  "nat \<Rightarrow> 'c option \<Rightarrow> ('v, 'p, 'c, 'm) store \<Rightarrow> (nat \<times> ('v, 'p, 'c, 'm) store) outcome" where
  "WithConfig a config h =
     (case deref h a of
        None \<Rightarrow> Panic
      | Some ag \<Rightarrow> Return (a, h[a := ag\<lparr>Config := config\<rparr>]))"

definition WithInstructions ::
  "nat \<Rightarrow> string \<Rightarrow> ('v, 'p, 'c, 'm) store \<Rightarrow> (nat \<times> ('v, 'p, 'c, 'm) store) outcome" where
  "WithInstructions a instructions h =
     (case deref h a of
        None \<Rightarrow> Panic
      | Some ag \<Rightarrow> Return (a, h[a := ag\<lparr>Instructions := instructions\<rparr>]))"

definition WithInstructionsFunc ::
  "nat \<Rightarrow> ((string \<rightharpoonup> 'v) \<Rightarrow> string) option \<Rightarrow> ('v, 'p, 'c, 'm) store
     \<Rightarrow> (nat \<times> ('v, 'p, 'c, 'm) store) outcome" where
  "WithInstructionsFunc a f h =
     (case deref h a of
        None \<Rightarrow> Panic
      | Some ag \<Rightarrow> Return (a, h[a := ag\<lparr>InstructionsFunc := f\<rparr>]))"

definition WithParallelToolCalls ::
  "nat \<Rightarrow> bool \<Rightarrow> ('v, 'p, 'c, 'm) store \<Rightarrow> (nat \<times> ('v, 'p, 'c, 'm) store) outcome" where
  "WithParallelToolCalls a enabled h =
     (case deref h a of
        None \<Rightarrow> Panic
      | Some ag \<Rightarrow> Return (a, h[a := ag\<lparr>ParallelToolCalls := enabled\<rparr>]))"

section \<open>The schema compiler\<close>

text \<open>
  \<open>NewAgentFunction[I]\<close> calls the schema reflector and \<open>encoding/json\<close>, which
  are libraries outside the repository, and is generic in the argument type \<open>I\<close>.
  What it uses of them is a parameter of the model: the schema reflected from the
  zero value of \<open>I\<close>, \<open>json.MarshalIndent\<close> on a schema, \<open>json.Unmarshal\<close> into a
  \<open>map[string]interface{}\<close>, \<open>json.Marshal\<close> on an argument map and
  \<open>json.Unmarshal\<close> into an \<open>I\<close>. Each call that can fail returns its error
  message on the left.
\<close>

record ('s, 'i, 'v) json_env =
  Reflect :: 's
  MarshalIndent :: "'s \<Rightarrow> string + string"
  Unmarshal_map :: "string \<Rightarrow> string + (string \<times> json) list"
  Marshal :: "(string \<rightharpoonup> 'v) \<Rightarrow> string + string"
  Unmarshal_typed :: "string \<Rightarrow> string + 'i"

text \<open>\<open>k[i]\<close> on a string: the byte at \<open>i\<close>, and no byte out of range, where Go panics.\<close>

definition byte_at :: "string \<Rightarrow> nat \<Rightarrow> char option" where
  "byte_at k i = (if i < length k then Some (k ! i) else None)"

text \<open>\<open>schemaMap[k]\<close>: the value stored under \<open>k\<close>, and nil for a key that is absent.\<close>

definition index_map :: "(string \<times> json) list \<Rightarrow> string \<Rightarrow> json" where
  "index_map m k = (case map_of m k of None \<Rightarrow> JNull | Some v \<Rightarrow> v)"

text \<open>
  The loop \<open>for k, _ := range schemaMap\<close>, over the keys still to visit, with the
  \<open>params\<close> built so far.
\<close>

fun strip_metadata ::
  "(string \<times> json) list \<Rightarrow> string list \<Rightarrow> (string \<rightharpoonup> json) \<Rightarrow> (string \<rightharpoonup> json) outcome" where
  "strip_metadata schemaMap [] ps = Return ps"
| "strip_metadata schemaMap (k # ks) ps =
     (case byte_at k 0 of
        None \<Rightarrow> Panic
      | Some c \<Rightarrow>
          if c = CHR ''$'' then strip_metadata schemaMap ks ps
          else strip_metadata schemaMap ks (ps(k \<mapsto> index_map schemaMap k)))"

text \<open>The closure stored in the \<open>executor\<close> field.\<close>

definition adapter ::
  "('s, 'i, 'v) json_env \<Rightarrow> ('i \<Rightarrow> (string \<rightharpoonup> 'v) \<Rightarrow> 'v Result outcome)
     \<Rightarrow> (string \<rightharpoonup> 'v) \<Rightarrow> (string \<rightharpoonup> 'v) \<Rightarrow> 'v Result outcome" where
  "adapter env exec args contextVariables =
     (case Marshal env args of
        Inl err \<Rightarrow>
          Return \<lparr>Success = False, Data = None,
                  Error = Some (''error marshaling arguments: '' @ err), NextAgent = None\<rparr>
      | Inr argsBytes \<Rightarrow>
          (case Unmarshal_typed env argsBytes of
             Inl err \<Rightarrow>
               Return \<lparr>Success = False, Data = None,
                       Error = Some (''error unmarshaling arguments: '' @ err), NextAgent = None\<rparr>
           | Inr typedArgs \<Rightarrow> exec typedArgs contextVariables))"

definition NewAgentFunction ::
  "('s, 'i, 'v) json_env \<Rightarrow> string \<Rightarrow> string
     \<Rightarrow> ('i \<Rightarrow> (string \<rightharpoonup> 'v) \<Rightarrow> 'v Result outcome)
     \<Rightarrow> (string + 'v AgentFunction) outcome" where
  "NewAgentFunction env name description exec =
     (case MarshalIndent env (Reflect env) of
        Inl err \<Rightarrow> Return (Inl (''Error generating schema: '' @ err))
      | Inr schemaBytes \<Rightarrow>
          (case Unmarshal_map env schemaBytes of
             Inl err \<Rightarrow> Return (Inl (''Error unmarshaling schema: '' @ err))
           | Inr schemaMap \<Rightarrow>
               (case strip_metadata schemaMap (map fst schemaMap) Map.empty of
                  Panic \<Rightarrow> Panic
                | Return ps \<Rightarrow>
                    Return (Inr \<lparr>af_Name = name, af_Description = description,
                                 params = ps, executor = adapter env exec\<rparr>))))"

section \<open>The reflected schema of a struct\<close>

text \<open>
  Modelled from the spec: the schema that the reflector gives for a typed argument
  shape. The reflector is a library outside the repository; the spec (section 4.1)
  says what it yields, and the expected schemas of \<open>TestFunctionToDefinitionBasic\<close>
  and \<open>TestFunctionToDefinitionWithRequired\<close> fix the entries. A shape is the list of
  the struct's fields: the JSON name, the native type, and the \<open>required\<close> and
  \<open>description\<close> annotations of the field's \<open>jsonschema\<close> tag.
\<close>

datatype go_kind = GoInt | GoString | GoBool

record field =
  fld_name :: string
  fld_kind :: go_kind
  fld_required :: bool
  fld_description :: "string option"

fun schema_type :: "go_kind \<Rightarrow> string" where
  "schema_type GoInt = ''integer''"
| "schema_type GoString = ''string''"
| "schema_type GoBool = ''boolean''"

text \<open>Modelled from the spec: a field's entry under \<open>properties\<close>.\<close>

definition property_schema :: "field \<Rightarrow> json" where
  "property_schema f =
     JObject ((''type'', JString (schema_type (fld_kind f))) #
              (case fld_description f of
                 None \<Rightarrow> []
               | Some d \<Rightarrow> [(''description'', JString d)]))"

definition required_names :: "field list \<Rightarrow> string list" where
  "required_names shape = map fld_name (filter fld_required shape)"

text \<open>
  Modelled from the spec: the entries of the reflected schema besides its metadata.
  The schema expected by \<open>TestFunctionToDefinitionBasic\<close>, for a struct with no
  required field, has no \<open>required\<close> key.
\<close>

definition schema_entries :: "field list \<Rightarrow> (string \<times> json) list" where
  "schema_entries shape =
     [(''properties'', JObject (map (\<lambda>f. (fld_name f, property_schema f)) shape)),
      (''additionalProperties'', JBool False),
      (''type'', JString ''object'')] @
     (if required_names shape = [] then []
      else [(''required'', JArray (map JString (required_names shape)))])"

text \<open>
  A decoded schema map \<open>m\<close> is the reflected schema of \<open>shape\<close>, whatever metadata
  the reflector adds under keys that start with \<open>$\<close>: off those keys, \<open>m\<close> has
  the entries of \<open>schema_entries shape\<close> and no other.
\<close>

definition reflects :: "field list \<Rightarrow> (string \<times> json) list \<Rightarrow> bool" where
  "reflects shape m =
     list_all (\<lambda>k. byte_at k 0 = Some CHR ''$'' \<or> map_of m k = map_of (schema_entries shape) k)
       (map fst m @ map fst (schema_entries shape))"

text \<open>Field names of a struct are distinct.\<close>

definition wf_shape :: "field list \<Rightarrow> bool" where
  "wf_shape shape = distinct (map fld_name shape)"

section \<open>The inputs of the tests\<close>

text \<open>
  The argument types of swarm\_test.go: \<open>TestFunctionArgs\<close>, whose only field
  \<open>Arg1\<close> is an \<open>int\<close> that is decoded and never computed with here, and its
  variant with a required, described field.
\<close>

record TestFunctionArgs =
  Arg1 :: int

definition TestFunctionArgs_shape :: "field list" where
  "TestFunctionArgs_shape =
     [\<lparr>fld_name = ''arg1'', fld_kind = GoInt, fld_required = False, fld_description = None\<rparr>]"

definition TestFunctionArgsWithRequired_shape :: "field list" where
  "TestFunctionArgsWithRequired_shape =
     [\<lparr>fld_name = ''arg1'', fld_kind = GoInt, fld_required = True,
       fld_description = Some ''This is a required argument''\<rparr>]"

text \<open>The schema struct of a shape, with the dialect under \<open>$schema\<close>.\<close>

definition reflected_schema :: "field list \<Rightarrow> json" where
  "reflected_schema shape =
     JObject ((''$schema'', JString ''https://json-schema.org/draft/2020-12/schema'') #
              schema_entries shape)"

fun join_lines :: "string list \<Rightarrow> string" where
  "join_lines [] = []"
| "join_lines [l] = l"
| "join_lines (l # ls) = l @ CHR 0x0A # join_lines ls"

definition basic_schema_text :: string where
  \<open>basic_schema_text = join_lines
     [''{'',
      ''  "$schema": "https://json-schema.org/draft/2020-12/schema",'',
      ''  "properties": {'',
      ''    "arg1": {'',
      ''      "type": "integer"'',
      ''    }'',
      ''  },'',
      ''  "additionalProperties": false,'',
      ''  "type": "object"'',
      ''}'']\<close>

definition required_schema_text :: string where
  \<open>required_schema_text = join_lines
     [''{'',
      ''  "$schema": "https://json-schema.org/draft/2020-12/schema",'',
      ''  "properties": {'',
      ''    "arg1": {'',
      ''      "type": "integer",'',
      ''      "description": "This is a required argument"'',
      ''    }'',
      ''  },'',
      ''  "additionalProperties": false,'',
      ''  "type": "object",'',
      ''  "required": ['',
      ''    "arg1"'',
      ''  ]'',
      ''}'']\<close>

text \<open>
  \<open>encoding/json\<close> at the inputs of the tests, and an error elsewhere. \<open>visit\<close> is
  the order in which the runtime ranges over the decoded schema map, as a rearrangement
  of its entries.
\<close>

definition object_entries :: "json \<Rightarrow> (string \<times> json) list" where
  "object_entries j = (case j of JObject es \<Rightarrow> es | _ \<Rightarrow> [])"

definition test_env ::
  "((string \<times> json) list \<Rightarrow> (string \<times> json) list) \<Rightarrow> field list
     \<Rightarrow> (json, TestFunctionArgs, json) json_env" where
  \<open>test_env visit shape =
     \<lparr>Reflect = reflected_schema shape,
      MarshalIndent = (\<lambda>s.
        if s = reflected_schema TestFunctionArgs_shape then Inr basic_schema_text
        else if s = reflected_schema TestFunctionArgsWithRequired_shape
        then Inr required_schema_text
        else Inl ''json: unsupported value''),
      Unmarshal_map = (\<lambda>b.
        if b = basic_schema_text
        then Inr (visit (object_entries (reflected_schema TestFunctionArgs_shape)))
        else if b = required_schema_text
        then Inr (visit (object_entries (reflected_schema TestFunctionArgsWithRequired_shape)))
        else Inl ''unexpected end of JSON input''),
      Marshal = (\<lambda>args.
        if args = [''arg1'' \<mapsto> JNumber 123] then Inr ''{"arg1":123}''
        else if args = [''arg1'' \<mapsto> JString ''value1''] then Inr ''{"arg1":"value1"}''
        else Inl ''json: unsupported value''),
      Unmarshal_typed = (\<lambda>b.
        if b = ''{"arg1":123}'' then Inr \<lparr>Arg1 = 123\<rparr>
        else Inl ''json: cannot unmarshal string into Go struct field TestFunctionArgs.arg1 of type int'')\<rparr>\<close>

text \<open>The executor of \<open>TestFunctionToDefinitionBasic\<close>.\<close>

definition test_executor :: "TestFunctionArgs \<Rightarrow> (string \<rightharpoonup> json) \<Rightarrow> json Result outcome" where
  "test_executor args contextVariables =
     Return \<lparr>Success = True, Data = Some (JString ''Function executed successfully''),
             Error = None, NextAgent = None\<rparr>"

text \<open>
  The tool and the agent of \<open>TestHandleToolCall\<close>: the agent is built by the literal
  \<open>&Agent{Name: "TestAgent", Model: "test-model"}\<close>, every other field zero.
\<close>

definition testFunction :: "json AgentFunction" where
  "testFunction =
     \<lparr>af_Name = ''testFunction'', af_Description = ''A test function'',
      params = map_of (schema_entries TestFunctionArgs_shape),
      executor = adapter (test_env id TestFunctionArgs_shape) test_executor\<rparr>"

definition TestAgent :: "(json, string, unit, unit) Agent" where
  "TestAgent =
     \<lparr>Name = ''TestAgent'', Model = ''test-model'', Provider = [], Config = None,
      Instructions = [], InstructionsFunc = None, Functions = nil_slice, Memory = None,
      ParallelToolCalls = False\<rparr>"

text \<open>
  Two more tools, and an agent that already holds \<open>testFunction\<close> in a backing
  array of four cells, with room for three more.
\<close>

definition toolA :: "json AgentFunction" where
  "toolA = testFunction\<lparr>af_Name := ''toolA''\<rparr>"

definition toolB :: "json AgentFunction" where
  "toolB = testFunction\<lparr>af_Name := ''toolB''\<rparr>"

definition registered_arrays :: "json arrays" where
  "registered_arrays =
     [[testFunction, zero_AgentFunction, zero_AgentFunction, zero_AgentFunction]]"

definition RegisteredAgent :: "(json, string, unit, unit) Agent" where
  "RegisteredAgent =
     TestAgent\<lparr>Functions := \<lparr>sl_array = Some 0, sl_off = 0, sl_len = 1, sl_cap = 4\<rparr>\<rparr>"

text \<open>A growth policy: twice the old capacity.\<close>

definition double_cap :: "nat \<Rightarrow> nat \<Rightarrow> nat" where
  "double_cap old needed = 2 * old"

text \<open>What a call left in memory: the tool names of the agent it returned.\<close>

definition tool_names_after ::
  "(nat \<times> ('v, 'p, 'c, 'm) store \<times> 'v arrays) outcome \<Rightarrow> string list option" where
  "tool_names_after r =
     (case r of
        Panic \<Rightarrow> None
      | Return (a, h, arrs) \<Rightarrow>
          map_option (\<lambda>ag. map af_Name (read_slice arrs (Functions ag))) (deref h a))"

text \<open>What a call left in memory: the tools of the agent at an address.\<close>

definition tools_after ::
  "(nat \<times> ('v, 'p, 'c, 'm) store \<times> 'v arrays) outcome \<Rightarrow> nat \<Rightarrow> 'v AgentFunction list option" where
  "tools_after r b =
     (case r of
        Panic \<Rightarrow> None
      | Return (a, h, arrs) \<Rightarrow> map_option (\<lambda>ag. read_slice arrs (Functions ag)) (deref h b))"

text \<open>What a call to \<open>NewAgentFunction\<close> left under a key of the tool's \<open>params\<close>.\<close>

definition param_at :: "(string + 'v AgentFunction) outcome \<Rightarrow> string \<Rightarrow> json option option" where
  "param_at r k =
     (case r of
        Return (Inr af) \<Rightarrow> Some (params af k)
      | _ \<Rightarrow> None)"

section \<open>Facts about append\<close>

lemma length_read_slice: "valid_slice arrs s \<Longrightarrow> length (read_slice arrs s) = sl_len s"
  by (auto simp: valid_slice_def read_slice_def split: option.splits)

lemma length_write_cells: "i + length xs \<le> length cells \<Longrightarrow> length (write_cells cells i xs) = length cells"
  by (simp add: write_cells_def)

lemma read_write_cells:
  assumes "off + len + length xs \<le> length cells"
  shows "take (len + length xs) (drop off (write_cells cells (off + len) xs))
           = take len (drop off cells) @ xs"
proof -
  have "drop off (write_cells cells (off + len) xs)
          = take len (drop off cells) @ xs @ drop (off + len + length xs) cells"
    using assms by (simp add: write_cells_def drop_take)
  moreover have "length (take len (drop off cells)) = len" using assms by simp
  ultimately show ?thesis by simp
qed

lemma read_old_write_cells:
  assumes "off + len + length xs \<le> length cells"
  shows "take len (drop off (write_cells cells (off + len) xs)) = take len (drop off cells)"
proof -
  have "drop off (write_cells cells (off + len) xs)
          = take len (drop off cells) @ xs @ drop (off + len + length xs) cells"
    using assms by (simp add: write_cells_def drop_take)
  moreover have "length (take len (drop off cells)) = len" using assms by simp
  ultimately show ?thesis by simp
qed

lemma read_new_array:
  "read_slice (arrs @ [cells]) \<lparr>sl_array = Some (length arrs), sl_off = 0, sl_len = n, sl_cap = c\<rparr>
     = take n cells"
  by (simp add: read_slice_def)

lemma append_slice_total:
  "valid_slice arrs s \<Longrightarrow> \<exists>s' arrs'. append_slice g z s xs arrs = Some (s', arrs')"
  by (simp add: append_slice_def Let_def split: option.splits)

lemma append_slice_reads:
  assumes "valid_slice arrs s" and "append_slice g z s xs arrs = Some (s', arrs')"
  shows "read_slice arrs' s' = read_slice arrs s @ xs"
    and "read_slice arrs' s = read_slice arrs s"
    and "valid_slice arrs' s'"
proof -
  show "read_slice arrs' s' = read_slice arrs s @ xs"
  proof (cases "sl_len s + length xs \<le> sl_cap s")
    case True
    show ?thesis
    proof (cases "sl_array s")
      case None
      with True assms show ?thesis
        by (auto simp: append_slice_def valid_slice_def read_slice_def)
    next
      case (Some p)
      with True assms have v: "p < length arrs" "sl_off s + sl_cap s \<le> length (arrs ! p)"
        by (auto simp: valid_slice_def)
      then have "sl_off s + sl_len s + length xs \<le> length (arrs ! p)" using True by simp
      from read_write_cells [OF this] Some True assms v show ?thesis
        by (auto simp: append_slice_def read_slice_def)
    qed
  next
    case False
    with assms show ?thesis
      by (auto simp: append_slice_def Let_def read_new_array length_read_slice [OF assms(1)])
  qed
  show "read_slice arrs' s = read_slice arrs s"
  proof (cases "sl_len s + length xs \<le> sl_cap s")
    case True
    show ?thesis
    proof (cases "sl_array s")
      case None
      with True assms show ?thesis
        by (auto simp: append_slice_def valid_slice_def read_slice_def)
    next
      case (Some p)
      with True assms have v: "p < length arrs" "sl_off s + sl_cap s \<le> length (arrs ! p)"
        by (auto simp: valid_slice_def)
      then have "sl_off s + sl_len s + length xs \<le> length (arrs ! p)" using True by simp
      from read_old_write_cells [OF this] Some True assms v show ?thesis
        by (auto simp: append_slice_def read_slice_def)
    qed
  next
    case False
    with assms show ?thesis
      by (auto simp: append_slice_def Let_def read_slice_def valid_slice_def nth_append
          split: option.splits)
  qed
  show "valid_slice arrs' s'"
  proof (cases "sl_len s + length xs \<le> sl_cap s")
    case True
    with assms show ?thesis
      by (auto simp: append_slice_def valid_slice_def length_write_cells split: option.splits)
  next
    case False
    with assms show ?thesis
      by (auto simp: append_slice_def Let_def valid_slice_def length_read_slice [OF assms(1)])
  qed
qed

section \<open>The metadata loop\<close>

lemma byte_at_0: "byte_at k 0 = (case k of [] \<Rightarrow> None | c # _ \<Rightarrow> Some c)"
  by (cases k) (simp_all add: byte_at_def)

text \<open>The loop panics exactly when one of the keys it visits is empty.\<close>

lemma strip_metadata_panics:
  "strip_metadata m ks ps = Panic \<longleftrightarrow> [] \<in> set ks"
  by (induction ks arbitrary: ps) (auto simp: byte_at_0 split: list.splits)

lemma strip_metadata_returns:
  "[] \<notin> set ks \<Longrightarrow>
   strip_metadata m ks ps =
     Return (\<lambda>k. if k \<in> set ks \<and> byte_at k 0 \<noteq> Some CHR ''$'' then Some (index_map m k) else ps k)"
  by (induction ks arbitrary: ps) (auto simp: byte_at_0 fun_eq_iff split: list.splits)

lemma index_map_key: "map_of m k = Some v \<Longrightarrow> index_map m k = v"
  by (simp add: index_map_def)

text \<open>Over the keys of the map itself, the loop restricts the map to the other keys.\<close>

lemma strip_metadata_keys:
  assumes "[] \<notin> fst ` set m"
  shows "strip_metadata m (map fst m) Map.empty =
     Return (\<lambda>k. if byte_at k 0 = Some CHR ''$'' then None else map_of m k)"
proof -
  have "(if k \<in> set (map fst m) \<and> byte_at k 0 \<noteq> Some CHR ''$'' then Some (index_map m k) else None)
        = (if byte_at k 0 = Some CHR ''$'' then None else map_of m k)" for k
  proof (cases "map_of m k")
    case None
    then have "k \<notin> set (map fst m)" by (simp add: map_of_eq_None_iff)
    with None show ?thesis by simp
  next
    case (Some v)
    then have "k \<in> set (map fst m)" by (metis map_of_eq_None_iff option.distinct(1) set_map)
    with Some show ?thesis by (simp add: index_map_key)
  qed
  then show ?thesis using assms strip_metadata_returns [of "map fst m" m Map.empty] by simp
qed

text \<open>\<open>NewAgentFunction\<close> with its loop solved.\<close>

lemma NewAgentFunction_cases:
  "NewAgentFunction env name description exec =
     (case MarshalIndent env (Reflect env) of
        Inl err \<Rightarrow> Return (Inl (''Error generating schema: '' @ err))
      | Inr b \<Rightarrow>
          (case Unmarshal_map env b of
             Inl err \<Rightarrow> Return (Inl (''Error unmarshaling schema: '' @ err))
           | Inr m \<Rightarrow>
               if [] \<in> fst ` set m then Panic
               else Return (Inr \<lparr>af_Name = name, af_Description = description,
                      params = (\<lambda>k. if byte_at k 0 = Some CHR ''$'' then None else map_of m k),
                      executor = adapter env exec\<rparr>)))"
proof -
  have aux: "(case strip_metadata m (map fst m) Map.empty of
           Panic \<Rightarrow> Panic
         | Return ps \<Rightarrow> Return (Inr \<lparr>af_Name = name, af_Description = description,
                                 params = ps, executor = adapter env exec\<rparr>))
        = (if [] \<in> fst ` set m then Panic
           else Return (Inr \<lparr>af_Name = name, af_Description = description,
                  params = (\<lambda>k. if byte_at k 0 = Some CHR ''$'' then None else map_of m k),
                  executor = adapter env exec\<rparr>))" for m :: "(string \<times> json) list"
  proof (cases "[] \<in> fst ` set m")
    case True
    then have "strip_metadata m (map fst m) Map.empty = Panic"
      by (simp add: strip_metadata_panics)
    with True show ?thesis by simp
  next
    case False
    then show ?thesis by (simp add: strip_metadata_keys)
  qed
  show ?thesis unfolding NewAgentFunction_def aux by (rule refl)
qed

lemma NewAgentFunction_executor:
  "NewAgentFunction env name description exec = Return (Inr af) \<Longrightarrow> executor af = adapter env exec"
  by (auto simp: NewAgentFunction_def split: sum.splits outcome.splits)

section \<open>Facts about the inputs of the tests\<close>

lemma texts_differ: "basic_schema_text \<noteq> required_schema_text"
  by (simp add: basic_schema_text_def required_schema_text_def)

lemma shapes_differ:
  "reflected_schema TestFunctionArgs_shape \<noteq> reflected_schema TestFunctionArgsWithRequired_shape"
  by (simp add: reflected_schema_def schema_entries_def TestFunctionArgs_shape_def
      TestFunctionArgsWithRequired_shape_def required_names_def)

lemma basic_entries:
  "schema_entries TestFunctionArgs_shape =
     [(''properties'', JObject [(''arg1'', JObject [(''type'', JString ''integer'')])]),
      (''additionalProperties'', JBool False),
      (''type'', JString ''object'')]"
  by (simp add: schema_entries_def TestFunctionArgs_shape_def required_names_def property_schema_def)

lemma required_entries:
  "schema_entries TestFunctionArgsWithRequired_shape =
     [(''properties'', JObject [(''arg1'', JObject [(''type'', JString ''integer''),
         (''description'', JString ''This is a required argument'')])]),
      (''additionalProperties'', JBool False),
      (''type'', JString ''object''),
      (''required'', JArray [JString ''arg1''])]"
  by (simp add: schema_entries_def TestFunctionArgsWithRequired_shape_def required_names_def property_schema_def)

lemma basic_marshal:
  "MarshalIndent (test_env visit TestFunctionArgs_shape) (Reflect (test_env visit TestFunctionArgs_shape))
     = Inr basic_schema_text"
  by (simp add: test_env_def)

lemma basic_unmarshal:
  "Unmarshal_map (test_env visit shape) basic_schema_text
     = Inr (visit ((''$schema'', JString ''https://json-schema.org/draft/2020-12/schema'') #
                   schema_entries TestFunctionArgs_shape))"
  by (simp add: test_env_def reflected_schema_def object_entries_def)

lemma required_marshal:
  "MarshalIndent (test_env visit TestFunctionArgsWithRequired_shape)
     (Reflect (test_env visit TestFunctionArgsWithRequired_shape)) = Inr required_schema_text"
  using shapes_differ by (simp add: test_env_def)

lemma required_unmarshal:
  "Unmarshal_map (test_env visit shape) required_schema_text
     = Inr (visit ((''$schema'', JString ''https://json-schema.org/draft/2020-12/schema'') #
                   schema_entries TestFunctionArgsWithRequired_shape))"
  using texts_differ by (simp add: test_env_def reflected_schema_def object_entries_def)

text \<open>
  \<open>NewAgentFunction\<close> on \<open>TestFunctionArgs\<close> returns the tool whose definition
  \<open>TestFunctionToDefinitionBasic\<close> expects.
\<close>

lemma basic_new:
  "NewAgentFunction (test_env id TestFunctionArgs_shape) ''testFunction'' ''A test function'' test_executor
     = Return (Inr testFunction)"
  by (simp add: NewAgentFunction_def test_env_def texts_differ shapes_differ reflected_schema_def
      object_entries_def basic_entries byte_at_def index_map_def testFunction_def fun_eq_iff)

lemma map_of_rev_distinct: "distinct (map fst xs) \<Longrightarrow> map_of (rev xs) = map_of xs"
proof (rule ext)
  fix k
  assume d: "distinct (map fst xs)"
  then have d': "distinct (map fst (rev xs))" by (simp add: rev_map [symmetric])
  show "map_of (rev xs) k = map_of xs k"
  proof (cases "map_of xs k")
    case None
    then have "map_of (rev xs) k = None" by (simp add: map_of_eq_None_iff)
    with None show ?thesis by simp
  next
    case (Some v)
    then have "(k, v) \<in> set (rev xs)" by (auto dest: map_of_SomeD)
    with d' Some show ?thesis by (simp add: map_of_is_SomeI del: set_rev)
  qed
qed

section \<open>Facts about the reflected schema\<close>

text \<open>Off the metadata keys, a map that reflects a shape is the schema of the shape.\<close>

lemma reflects_off_metadata:
  assumes "reflects shape m" and "byte_at k 0 \<noteq> Some CHR ''$''"
  shows "map_of m k = map_of (schema_entries shape) k"
proof (cases "k \<in> set (map fst m @ map fst (schema_entries shape))")
  case True
  with assms show ?thesis by (auto simp: reflects_def list_all_iff)
next
  case False
  then have "map_of m k = None" "map_of (schema_entries shape) k = None"
    by (simp_all add: map_of_eq_None_iff)
  then show ?thesis by simp
qed

lemma schema_entries_empty_key: "map_of (schema_entries shape) [] = None"
  by (simp add: schema_entries_def)

lemma reflects_nonempty_keys:
  assumes "reflects shape m"
  shows "[] \<notin> fst ` set m"
proof
  assume "[] \<in> fst ` set m"
  then have "map_of m [] \<noteq> None" by (simp add: map_of_eq_None_iff)
  moreover have "map_of m [] = map_of (schema_entries shape) []"
    using assms by (rule reflects_off_metadata) (simp add: byte_at_def)
  ultimately show False by (simp add: schema_entries_empty_key)
qed

text \<open>With distinct field names, a field is found under its own name.\<close>

lemma property_lookup:
  assumes "wf_shape shape" and "f \<in> set shape"
  shows "map_of (map (\<lambda>f. (fld_name f, property_schema f)) shape) (fld_name f) = Some (property_schema f)"
proof -
  have "distinct (map fst (map (\<lambda>f. (fld_name f, property_schema f)) shape))"
    using assms(1) by (simp add: wf_shape_def comp_def)
  moreover have "(fld_name f, property_schema f) \<in> set (map (\<lambda>f. (fld_name f, property_schema f)) shape)"
    using assms(2) by auto
  ultimately show ?thesis by (rule map_of_is_SomeI)
qed

lemma required_name_iff:
  assumes "wf_shape shape" and "f \<in> set shape"
  shows "fld_name f \<in> set (required_names shape) \<longleftrightarrow> fld_required f"
proof
  assume "fld_name f \<in> set (required_names shape)"
  then obtain g where g: "g \<in> set shape" "fld_required g" "fld_name g = fld_name f"
    by (auto simp: required_names_def)
  from assms(1) have "inj_on fld_name (set shape)" by (simp add: wf_shape_def distinct_map)
  with g(1,3) assms(2) have "g = f" by (auto dest: inj_onD)
  with g(2) show "fld_required f" by simp
next
  assume "fld_required f"
  with assms(2) show "fld_name f \<in> set (required_names shape)" by (auto simp: required_names_def)
qed

lemma required_wf: "wf_shape TestFunctionArgsWithRequired_shape"
  by (simp add: wf_shape_def TestFunctionArgsWithRequired_shape_def)

lemma basic_wf: "wf_shape TestFunctionArgs_shape"
  by (simp add: wf_shape_def TestFunctionArgs_shape_def)

lemma required_reflects:
  "reflects TestFunctionArgsWithRequired_shape
     ((''$schema'', JString ''https://json-schema.org/draft/2020-12/schema'') #
      schema_entries TestFunctionArgsWithRequired_shape)"
  by (simp add: reflects_def required_entries byte_at_def)

lemma basic_reflects:
  "reflects TestFunctionArgs_shape
     ((''$schema'', JString ''https://json-schema.org/draft/2020-12/schema'') #
      schema_entries TestFunctionArgs_shape)"
  by (simp add: reflects_def basic_entries byte_at_def)

section \<open>The adapter\<close>

text \<open>
  C2. Whenever \<open>json.Marshal\<close> of the argument map succeeds and \<open>json.Unmarshal\<close>
  of its bytes into the typed shape succeeds, the executor stored in the tool that
  \<open>NewAgentFunction\<close> returns gives exactly what the user's typed executor gives on
  the decoded value and the same context variables (a panic of the user's executor
  included).
\<close>

theorem adapter_round_trips:
  assumes "NewAgentFunction env name description exec = Return (Inr af)"
    and "Marshal env args = Inr argsBytes"
    and "Unmarshal_typed env argsBytes = Inr typedArgs"
  shows "executor af args contextVariables = exec typedArgs contextVariables"
  using assms by (simp add: NewAgentFunction_executor adapter_def)

theorem adapter_round_trips_witness:
  \<open>NewAgentFunction (test_env id TestFunctionArgs_shape) ''testFunction'' ''A test function''
       test_executor = Return (Inr testFunction)
   \<and> Marshal (test_env id TestFunctionArgs_shape) [''arg1'' \<mapsto> JNumber 123] = Inr ''{"arg1":123}''
   \<and> Unmarshal_typed (test_env id TestFunctionArgs_shape) ''{"arg1":123}'' = Inr \<lparr>Arg1 = 123\<rparr>
   \<and> executor testFunction [''arg1'' \<mapsto> JNumber 123] Map.empty
       = test_executor \<lparr>Arg1 = 123\<rparr> Map.empty\<close>
proof -
  have m: \<open>Marshal (test_env id TestFunctionArgs_shape) [''arg1'' \<mapsto> JNumber 123]
             = Inr ''{"arg1":123}''\<close>
    by (simp add: test_env_def)
  have u: \<open>Unmarshal_typed (test_env id TestFunctionArgs_shape) ''{"arg1":123}''
             = Inr \<lparr>Arg1 = 123\<rparr>\<close>
    by (simp add: test_env_def)
  show ?thesis
    using basic_new m u adapter_round_trips [OF basic_new m u, of Map.empty] by simp
qed

text \<open>
  C3. When \<open>json.Marshal\<close> of the argument map fails, or it succeeds and
  \<open>json.Unmarshal\<close> into the typed shape fails, the adapter returns (it does not
  panic) a Result whose \<open>Success\<close> is false and whose \<open>Error\<close> is a non-nil error
  with a non-empty message. It does not call the user's executor: the result is the
  one of the adapter built around an executor that panics whenever it is called.
\<close>

theorem adapter_failure_recovered:
  assumes "NewAgentFunction env name description exec = Return (Inr af)"
    and "(\<exists>err. Marshal env args = Inl err)
         \<or> (\<exists>argsBytes err. Marshal env args = Inr argsBytes \<and> Unmarshal_typed env argsBytes = Inl err)"
  shows "\<exists>r msg. executor af args contextVariables = Return r
           \<and> Success r = False \<and> Error r = Some msg \<and> msg \<noteq> []
           \<and> executor af args contextVariables = adapter env (\<lambda>typedArgs cv. Panic) args contextVariables"
  using assms by (auto simp: NewAgentFunction_executor adapter_def)

theorem adapter_failure_recovered_witness:
  \<open>NewAgentFunction (test_env id TestFunctionArgs_shape) ''testFunction'' ''A test function''
       test_executor = Return (Inr testFunction)
   \<and> ((\<exists>err. Marshal (test_env id TestFunctionArgs_shape) [''arg1'' \<mapsto> JString ''value1''] = Inl err)
        \<or> (\<exists>argsBytes err.
              Marshal (test_env id TestFunctionArgs_shape) [''arg1'' \<mapsto> JString ''value1''] = Inr argsBytes
              \<and> Unmarshal_typed (test_env id TestFunctionArgs_shape) argsBytes = Inl err))
   \<and> (\<exists>r msg. executor testFunction [''arg1'' \<mapsto> JString ''value1''] Map.empty = Return r
           \<and> Success r = False \<and> Error r = Some msg \<and> msg \<noteq> []
           \<and> executor testFunction [''arg1'' \<mapsto> JString ''value1''] Map.empty
               = adapter (test_env id TestFunctionArgs_shape) (\<lambda>typedArgs cv. Panic)
                   [''arg1'' \<mapsto> JString ''value1''] Map.empty)\<close>
proof -
  have neq: "[''arg1'' \<mapsto> JString ''value1''] \<noteq> [''arg1'' \<mapsto> JNumber 123]"
  proof
    assume "[''arg1'' \<mapsto> JString ''value1''] = [''arg1'' \<mapsto> JNumber 123]"
    then have "[''arg1'' \<mapsto> JString ''value1''] ''arg1'' = [''arg1'' \<mapsto> JNumber 123] ''arg1''"
      by (rule arg_cong)
    then show False by simp
  qed
  have m: \<open>Marshal (test_env id TestFunctionArgs_shape) [''arg1'' \<mapsto> JString ''value1'']
             = Inr ''{"arg1":"value1"}''\<close>
    by (simp add: test_env_def neq)
  have u: \<open>\<exists>err. Unmarshal_typed (test_env id TestFunctionArgs_shape) ''{"arg1":"value1"}'' = Inl err\<close>
    by (simp add: test_env_def)
  have f: "(\<exists>err. Marshal (test_env id TestFunctionArgs_shape) [''arg1'' \<mapsto> JString ''value1''] = Inl err)
        \<or> (\<exists>argsBytes err.
              Marshal (test_env id TestFunctionArgs_shape) [''arg1'' \<mapsto> JString ''value1''] = Inr argsBytes
              \<and> Unmarshal_typed (test_env id TestFunctionArgs_shape) argsBytes = Inl err)"
    using m u by simp
  show ?thesis
    using basic_new f adapter_failure_recovered [OF basic_new f, of Map.empty] by (intro conjI) assumption+
qed

section \<open>The parameter schema\<close>

text \<open>
  C1, as stated, asks for a \<open>required\<close> list in the schema of every shape. For
  \<open>TestFunctionArgs\<close>, which has no required field, the list would be empty; the key
  \<open>required\<close> is absent from \<open>params\<close> instead, as the schema expected by
  \<open>TestFunctionToDefinitionBasic\<close> says.
\<close>

theorem required_key_absent:
  "wf_shape TestFunctionArgs_shape
   \<and> reflects TestFunctionArgs_shape
       ((''$schema'', JString ''https://json-schema.org/draft/2020-12/schema'') #
        schema_entries TestFunctionArgs_shape)
   \<and> required_names TestFunctionArgs_shape = []
   \<and> param_at (NewAgentFunction (test_env id TestFunctionArgs_shape) ''testFunction''
         ''A test function'' test_executor) ''required'' = Some None
   \<and> param_at (NewAgentFunction (test_env id TestFunctionArgs_shape) ''testFunction''
         ''A test function'' test_executor) ''required''
       \<noteq> Some (Some (JArray (map JString (required_names TestFunctionArgs_shape))))"
proof -
  have "required_names TestFunctionArgs_shape = []"
    by (simp add: required_names_def TestFunctionArgs_shape_def)
  moreover have "param_at (NewAgentFunction (test_env id TestFunctionArgs_shape) ''testFunction''
         ''A test function'' test_executor) ''required'' = Some None"
    by (simp add: basic_new param_at_def testFunction_def basic_entries)
  ultimately show ?thesis using basic_wf basic_reflects by simp
qed

text \<open>
  C1, amended. For a struct shape with distinct field names whose reflected schema
  serializes and decodes to the schema of the shape, \<open>NewAgentFunction\<close> returns a
  tool whose \<open>params\<close> has \<open>type\<close> equal to \<open>object\<close>, \<open>additionalProperties\<close>
  equal to false, and \<open>properties\<close> holding for each field its schema primitive type
  and its description exactly when the field declares one. A field is named in the
  required names exactly when it is annotated required. The key \<open>required\<close> is
  present exactly when at least one field is annotated required, and then holds the
  names of those fields in declaration order; otherwise \<open>params\<close> has no such key.
\<close>

theorem reflected_schema_params:
  assumes "wf_shape shape"
    and "MarshalIndent env (Reflect env) = Inr schemaBytes"
    and "Unmarshal_map env schemaBytes = Inr schemaMap"
    and "reflects shape schemaMap"
  shows "\<exists>af props.
           NewAgentFunction env name description exec = Return (Inr af)
         \<and> params af ''type'' = Some (JString ''object'')
         \<and> params af ''additionalProperties'' = Some (JBool False)
         \<and> params af ''properties'' = Some (JObject props)
         \<and> (\<forall>f \<in> set shape. \<exists>ps.
               map_of props (fld_name f) = Some (JObject ps)
             \<and> map_of ps ''type'' = Some (JString (schema_type (fld_kind f)))
             \<and> map_of ps ''description'' = map_option JString (fld_description f)
             \<and> (fld_name f \<in> set (required_names shape) \<longleftrightarrow> fld_required f))
         \<and> params af ''required'' =
             (if required_names shape = [] then None
              else Some (JArray (map JString (required_names shape))))"
proof -
  let ?props = "map (\<lambda>f. (fld_name f, property_schema f)) shape"
  let ?ps = "\<lambda>k. if byte_at k 0 = Some CHR ''$'' then None else map_of schemaMap k"
  let ?af = "\<lparr>af_Name = name, af_Description = description, params = ?ps,
              executor = adapter env exec\<rparr>"
  from assms(4) have "[] \<notin> fst ` set schemaMap" by (rule reflects_nonempty_keys)
  with assms(2,3) have new: "NewAgentFunction env name description exec = Return (Inr ?af)"
    by (simp add: NewAgentFunction_cases)
  have off: "?ps k = map_of (schema_entries shape) k" if "byte_at k 0 \<noteq> Some CHR ''$''" for k
    using that reflects_off_metadata [OF assms(4) that] by simp
  have t: "?ps ''type'' = Some (JString ''object'')"
    by (subst off) (simp_all add: byte_at_def schema_entries_def)
  have a: "?ps ''additionalProperties'' = Some (JBool False)"
    by (subst off) (simp_all add: byte_at_def schema_entries_def)
  have p: "?ps ''properties'' = Some (JObject ?props)"
    by (subst off) (simp_all add: byte_at_def schema_entries_def)
  have r: "?ps ''required'' =
             (if required_names shape = [] then None
              else Some (JArray (map JString (required_names shape))))"
    by (subst off) (simp_all add: byte_at_def schema_entries_def)
  have f: "\<exists>ps. map_of ?props (fld_name f) = Some (JObject ps)
             \<and> map_of ps ''type'' = Some (JString (schema_type (fld_kind f)))
             \<and> map_of ps ''description'' = map_option JString (fld_description f)
             \<and> (fld_name f \<in> set (required_names shape) \<longleftrightarrow> fld_required f)"
    if "f \<in> set shape" for f
  proof -
    have "map_of ?props (fld_name f) = Some (property_schema f)"
      using assms(1) that by (rule property_lookup)
    moreover have "fld_name f \<in> set (required_names shape) \<longleftrightarrow> fld_required f"
      using assms(1) that by (rule required_name_iff)
    ultimately show ?thesis
      by (cases "fld_description f") (simp_all add: property_schema_def)
  qed
  from new t a p r f show ?thesis
    by (intro exI [of _ ?af] exI [of _ ?props]) simp
qed

theorem reflected_schema_params_witness:
  "wf_shape TestFunctionArgsWithRequired_shape
   \<and> MarshalIndent (test_env id TestFunctionArgsWithRequired_shape)
       (Reflect (test_env id TestFunctionArgsWithRequired_shape)) = Inr required_schema_text
   \<and> Unmarshal_map (test_env id TestFunctionArgsWithRequired_shape) required_schema_text
       = Inr ((''$schema'', JString ''https://json-schema.org/draft/2020-12/schema'') #
              schema_entries TestFunctionArgsWithRequired_shape)
   \<and> reflects TestFunctionArgsWithRequired_shape
       ((''$schema'', JString ''https://json-schema.org/draft/2020-12/schema'') #
        schema_entries TestFunctionArgsWithRequired_shape)
   \<and> (\<exists>af props.
           NewAgentFunction (test_env id TestFunctionArgsWithRequired_shape) ''testFunction''
             ''A test function'' test_executor = Return (Inr af)
         \<and> params af ''type'' = Some (JString ''object'')
         \<and> params af ''additionalProperties'' = Some (JBool False)
         \<and> params af ''properties'' = Some (JObject props)
         \<and> (\<forall>f \<in> set TestFunctionArgsWithRequired_shape. \<exists>ps.
               map_of props (fld_name f) = Some (JObject ps)
             \<and> map_of ps ''type'' = Some (JString (schema_type (fld_kind f)))
             \<and> map_of ps ''description'' = map_option JString (fld_description f)
             \<and> (fld_name f \<in> set (required_names TestFunctionArgsWithRequired_shape)
                  \<longleftrightarrow> fld_required f))
         \<and> params af ''required'' =
             (if required_names TestFunctionArgsWithRequired_shape = [] then None
              else Some (JArray (map JString (required_names TestFunctionArgsWithRequired_shape)))))"
proof -
  have u: "Unmarshal_map (test_env id TestFunctionArgsWithRequired_shape) required_schema_text
       = Inr ((''$schema'', JString ''https://json-schema.org/draft/2020-12/schema'') #
              schema_entries TestFunctionArgsWithRequired_shape)"
    using required_unmarshal [of id TestFunctionArgsWithRequired_shape] by simp
  show ?thesis
    using required_wf required_marshal [of id] u required_reflects
      reflected_schema_params [OF required_wf required_marshal [of id] u required_reflects,
        of "''testFunction''" "''A test function''" test_executor]
    by (intro conjI) assumption+
qed

text \<open>
  C4. In the tool that \<open>NewAgentFunction\<close> returns, no key of \<open>params\<close> begins
  with \<open>$\<close>, and under every key that does not begin with \<open>$\<close> \<open>params\<close> holds
  what the decoded schema map holds: the entry with its original value where the map
  has one, and nothing otherwise.
\<close>

theorem metadata_stripped:
  assumes "NewAgentFunction env name description exec = Return (Inr af)"
    and "MarshalIndent env (Reflect env) = Inr schemaBytes"
    and "Unmarshal_map env schemaBytes = Inr schemaMap"
  shows "(\<forall>k. params af k \<noteq> None \<longrightarrow> byte_at k 0 \<noteq> Some CHR ''$'')
       \<and> (\<forall>k. byte_at k 0 \<noteq> Some CHR ''$'' \<longrightarrow> params af k = map_of schemaMap k)"
  using assms by (auto simp: NewAgentFunction_cases split: if_splits)

theorem metadata_stripped_witness:
  "NewAgentFunction (test_env id TestFunctionArgs_shape) ''testFunction'' ''A test function''
       test_executor = Return (Inr testFunction)
   \<and> params testFunction ''$schema'' = None
   \<and> params testFunction ''type'' = Some (JString ''object'')
   \<and> params testFunction ''additionalProperties'' = Some (JBool False)"
proof -
  have "byte_at ''$schema'' 0 = Some CHR ''$''" "byte_at ''type'' 0 \<noteq> Some CHR ''$''"
    "byte_at ''additionalProperties'' 0 \<noteq> Some CHR ''$''"
    by (simp_all add: byte_at_def)
  then show ?thesis
    using basic_new metadata_stripped [OF basic_new basic_marshal basic_unmarshal]
    by (auto simp: basic_entries)
qed

text \<open>
  C9. The loop reads \<open>k[0]\<close> of every key of the decoded schema map, and
  \<open>byte_at\<close> gives no byte exactly where Go's index is out of range. If, whenever
  the schema serializes and decodes, the decoded map has only non-empty keys, then
  \<open>NewAgentFunction\<close> does not panic, and \<open>byte_at k 0\<close> is a byte for every key
  the loop visits.
\<close>

theorem no_panic_on_nonempty_keys:
  assumes "\<forall>schemaBytes schemaMap.
             MarshalIndent env (Reflect env) = Inr schemaBytes \<longrightarrow>
             Unmarshal_map env schemaBytes = Inr schemaMap \<longrightarrow>
             (\<forall>k \<in> set (map fst schemaMap). k \<noteq> [])"
  shows "NewAgentFunction env name description exec \<noteq> Panic
       \<and> (\<forall>schemaBytes schemaMap.
             MarshalIndent env (Reflect env) = Inr schemaBytes \<longrightarrow>
             Unmarshal_map env schemaBytes = Inr schemaMap \<longrightarrow>
             (\<forall>k \<in> set (map fst schemaMap). byte_at k 0 \<noteq> None))"
proof
  show "NewAgentFunction env name description exec \<noteq> Panic"
  proof (cases "MarshalIndent env (Reflect env)")
    case (Inl err)
    then show ?thesis by (simp add: NewAgentFunction_cases)
  next
    case b: (Inr schemaBytes)
    show ?thesis
    proof (cases "Unmarshal_map env schemaBytes")
      case (Inl err)
      with b show ?thesis by (simp add: NewAgentFunction_cases)
    next
      case m: (Inr schemaMap)
      from assms b m have "\<forall>k \<in> set (map fst schemaMap). k \<noteq> []" by blast
      then have "[] \<notin> fst ` set schemaMap" by auto
      with b m show ?thesis by (simp add: NewAgentFunction_cases)
    qed
  qed
next
  show "\<forall>schemaBytes schemaMap.
             MarshalIndent env (Reflect env) = Inr schemaBytes \<longrightarrow>
             Unmarshal_map env schemaBytes = Inr schemaMap \<longrightarrow>
             (\<forall>k \<in> set (map fst schemaMap). byte_at k 0 \<noteq> None)"
  proof (intro allI impI ballI)
    fix schemaBytes schemaMap k
    assume "MarshalIndent env (Reflect env) = Inr schemaBytes"
      "Unmarshal_map env schemaBytes = Inr schemaMap" "k \<in> set (map fst schemaMap)"
    with assms have "k \<noteq> []" by blast
    then show "byte_at k 0 \<noteq> None" by (simp add: byte_at_def)
  qed
qed

theorem no_panic_on_nonempty_keys_witness:
  "MarshalIndent (test_env rev TestFunctionArgsWithRequired_shape)
       (Reflect (test_env rev TestFunctionArgsWithRequired_shape)) = Inr required_schema_text
   \<and> Unmarshal_map (test_env rev TestFunctionArgsWithRequired_shape) required_schema_text
       = Inr (rev ((''$schema'', JString ''https://json-schema.org/draft/2020-12/schema'') #
                   schema_entries TestFunctionArgsWithRequired_shape))
   \<and> list_all (\<lambda>k. k \<noteq> [])
        (map fst (rev ((''$schema'', JString ''https://json-schema.org/draft/2020-12/schema'') #
                       schema_entries TestFunctionArgsWithRequired_shape)))
   \<and> NewAgentFunction (test_env rev TestFunctionArgsWithRequired_shape) ''testFunction''
        ''A test function'' test_executor \<noteq> Panic"
proof -
  have k: "list_all (\<lambda>k. k \<noteq> [])
        (map fst (rev ((''$schema'', JString ''https://json-schema.org/draft/2020-12/schema'') #
                       schema_entries TestFunctionArgsWithRequired_shape)))"
    by (simp add: required_entries)
  have h: "\<forall>schemaBytes schemaMap.
          MarshalIndent (test_env rev TestFunctionArgsWithRequired_shape)
            (Reflect (test_env rev TestFunctionArgsWithRequired_shape)) = Inr schemaBytes \<longrightarrow>
          Unmarshal_map (test_env rev TestFunctionArgsWithRequired_shape) schemaBytes = Inr schemaMap \<longrightarrow>
          (\<forall>k \<in> set (map fst schemaMap). k \<noteq> [])"
    using k by (auto simp: required_marshal required_unmarshal list_all_iff)
  show ?thesis
    using k required_marshal [of rev] required_unmarshal [of rev TestFunctionArgsWithRequired_shape]
      no_panic_on_nonempty_keys [OF h, of "''testFunction''" "''A test function''" test_executor,
        THEN conjunct1]
    by (intro conjI) assumption+
qed

text \<open>
  C7. The one thing that can differ between two calls of \<open>NewAgentFunction\<close> on the
  same type, name and description is the order in which the runtime ranges over the
  decoded schema map. Two calls whose reflector and encoder agree and whose decoded
  maps are equal as maps, in whatever order they are visited, end alike: both panic,
  or both return the same error, or both return tools with the same name, description
  and \<open>params\<close>, and \<open>FunctionToDefinition\<close> gives equal definitions for them.
\<close>

theorem schema_generation_deterministic:
  assumes "Reflect env' = Reflect env"
    and "MarshalIndent env' = MarshalIndent env"
    and "\<forall>b. rel_sum (=) (\<lambda>m m'. map_of m = map_of m') (Unmarshal_map env b) (Unmarshal_map env' b)"
  shows "rel_outcome
           (rel_sum (=)
              (\<lambda>af af'. af_Name af = af_Name af' \<and> af_Description af = af_Description af'
                        \<and> params af = params af'
                        \<and> FunctionToDefinition af = FunctionToDefinition af'))
           (NewAgentFunction env name description exec)
           (NewAgentFunction env' name description exec')"
proof (cases "MarshalIndent env (Reflect env)")
  case (Inl err)
  with assms(1,2) show ?thesis by (simp add: NewAgentFunction_cases)
next
  case b: (Inr schemaBytes)
  from assms(3) have r: "rel_sum (=) (\<lambda>m m'. map_of m = map_of m')
      (Unmarshal_map env schemaBytes) (Unmarshal_map env' schemaBytes)" by blast
  show ?thesis
  proof (cases "Unmarshal_map env schemaBytes")
    case (Inl err)
    with r have "Unmarshal_map env' schemaBytes = Inl err"
      by (cases "Unmarshal_map env' schemaBytes") simp_all
    with Inl b assms(1,2) show ?thesis by (simp add: NewAgentFunction_cases)
  next
    case m: (Inr schemaMap)
    with r obtain schemaMap' where m': "Unmarshal_map env' schemaBytes = Inr schemaMap'"
      and eq: "map_of schemaMap = map_of schemaMap'"
      by (cases "Unmarshal_map env' schemaBytes") simp_all
    have "fst ` set schemaMap = fst ` set schemaMap'"
      using eq by (metis dom_map_of_conv_image_fst)
    then have "[] \<in> fst ` set schemaMap' \<longleftrightarrow> [] \<in> fst ` set schemaMap" by simp
    moreover have "(\<lambda>k. if byte_at k 0 = Some CHR ''$'' then None else map_of schemaMap k)
        = (\<lambda>k. if byte_at k 0 = Some CHR ''$'' then None else map_of schemaMap' k)"
      by (subst eq) (rule refl)
    ultimately show ?thesis using b m m' assms(1,2)
      by (simp add: NewAgentFunction_cases FunctionToDefinition_def)
  qed
qed

theorem schema_generation_deterministic_witness:
  "Reflect (test_env rev TestFunctionArgsWithRequired_shape)
     = Reflect (test_env id TestFunctionArgsWithRequired_shape)
   \<and> MarshalIndent (test_env rev TestFunctionArgsWithRequired_shape)
     = MarshalIndent (test_env id TestFunctionArgsWithRequired_shape)
   \<and> (\<forall>b. rel_sum (=) (\<lambda>m m'. map_of m = map_of m')
           (Unmarshal_map (test_env id TestFunctionArgsWithRequired_shape) b)
           (Unmarshal_map (test_env rev TestFunctionArgsWithRequired_shape) b))
   \<and> rel_outcome
        (rel_sum (=)
           (\<lambda>af af'. af_Name af = af_Name af' \<and> af_Description af = af_Description af'
                     \<and> params af = params af'
                     \<and> FunctionToDefinition af = FunctionToDefinition af'))
        (NewAgentFunction (test_env id TestFunctionArgsWithRequired_shape) ''testFunction''
           ''A test function'' test_executor)
        (NewAgentFunction (test_env rev TestFunctionArgsWithRequired_shape) ''testFunction''
           ''A test function'' test_executor)"
proof -
  have r: "Reflect (test_env rev TestFunctionArgsWithRequired_shape)
     = Reflect (test_env id TestFunctionArgsWithRequired_shape)"
    by (simp add: test_env_def)
  have i: "MarshalIndent (test_env rev TestFunctionArgsWithRequired_shape)
     = MarshalIndent (test_env id TestFunctionArgsWithRequired_shape)"
    by (simp add: test_env_def)
  have d1: "distinct (map fst ((''$schema'', JString ''https://json-schema.org/draft/2020-12/schema'') #
                   schema_entries TestFunctionArgs_shape))"
    by (simp add: basic_entries)
  have d2: "distinct (map fst ((''$schema'', JString ''https://json-schema.org/draft/2020-12/schema'') #
                   schema_entries TestFunctionArgsWithRequired_shape))"
    by (simp add: required_entries)
  have u: "\<forall>b. rel_sum (=) (\<lambda>m m'. map_of m = map_of m')
           (Unmarshal_map (test_env id TestFunctionArgsWithRequired_shape) b)
           (Unmarshal_map (test_env rev TestFunctionArgsWithRequired_shape) b)"
  proof
    fix b
    consider "b = basic_schema_text" | "b = required_schema_text"
      | "b \<noteq> basic_schema_text" "b \<noteq> required_schema_text" by blast
    then show "rel_sum (=) (\<lambda>m m'. map_of m = map_of m')
           (Unmarshal_map (test_env id TestFunctionArgsWithRequired_shape) b)
           (Unmarshal_map (test_env rev TestFunctionArgsWithRequired_shape) b)"
    proof cases
      case 1
      then show ?thesis
        by (simp only: basic_unmarshal rel_sum_simps id_apply map_of_rev_distinct [OF d1])
    next
      case 2
      then show ?thesis
        by (simp only: required_unmarshal rel_sum_simps id_apply map_of_rev_distinct [OF d2])
    next
      case 3
      then show ?thesis by (simp add: test_env_def)
    qed
  qed
  show ?thesis
    using r i u schema_generation_deterministic [OF r i u, of "''testFunction''" "''A test function''"
        test_executor test_executor]
    by (intro conjI) assumption+
qed

section \<open>Agents\<close>

text \<open>
  C8. \<open>NewAgent\<close> returns the address of a new agent (it addressed nothing before,
  and the agents already in the store are untouched) whose \<open>Name\<close>, \<open>Model\<close> and
  \<open>Provider\<close> are the arguments, whose \<open>Memory\<close> is what \<open>NewMemoryStore(100)\<close>
  returned, and whose other fields are zero: the nil slice of functions, nil \<open>Config\<close>, empty
  \<open>Instructions\<close>, nil \<open>InstructionsFunc\<close>, \<open>ParallelToolCalls\<close> false.
\<close>

theorem NewAgent_fields:
  "deref (snd (NewAgent NewMemoryStore name model provider h))
         (fst (NewAgent NewMemoryStore name model provider h))
     = Some \<lparr>Name = name, Model = model, Provider = provider, Config = None,
             Instructions = [], InstructionsFunc = None, Functions = nil_slice,
             Memory = NewMemoryStore 100, ParallelToolCalls = False\<rparr>
   \<and> deref h (fst (NewAgent NewMemoryStore name model provider h)) = None
   \<and> take (length h) (snd (NewAgent NewMemoryStore name model provider h)) = h
   \<and> read_slice arrs nil_slice = []"
  by (simp add: NewAgent_def deref_def read_slice_def nil_slice_def)

text \<open>
  C10. On an agent \<open>ag\<close> at address \<open>a\<close>, each of \<open>WithConfig\<close>,
  \<open>WithInstructions\<close>, \<open>WithInstructionsFunc\<close> and \<open>WithParallelToolCalls\<close> returns
  the address \<open>a\<close> and leaves at \<open>a\<close> an agent whose targeted field is the
  argument and whose eight other fields are those of \<open>ag\<close>; the store changes at
  \<open>a\<close> only.
\<close>

theorem builders_frame:
  assumes "deref h a = Some ag"
  shows "(\<exists>ag'. WithConfig a config h = Return (a, h[a := ag']) \<and> deref (h[a := ag']) a = Some ag'
            \<and> Config ag' = config
            \<and> Name ag' = Name ag \<and> Model ag' = Model ag \<and> Provider ag' = Provider ag
            \<and> Instructions ag' = Instructions ag \<and> InstructionsFunc ag' = InstructionsFunc ag
            \<and> Functions ag' = Functions ag \<and> Memory ag' = Memory ag
            \<and> ParallelToolCalls ag' = ParallelToolCalls ag)
       \<and> (\<exists>ag'. WithInstructions a instructions h = Return (a, h[a := ag']) \<and> deref (h[a := ag']) a = Some ag'
            \<and> Instructions ag' = instructions
            \<and> Name ag' = Name ag \<and> Model ag' = Model ag \<and> Provider ag' = Provider ag
            \<and> Config ag' = Config ag \<and> InstructionsFunc ag' = InstructionsFunc ag
            \<and> Functions ag' = Functions ag \<and> Memory ag' = Memory ag
            \<and> ParallelToolCalls ag' = ParallelToolCalls ag)
       \<and> (\<exists>ag'. WithInstructionsFunc a f h = Return (a, h[a := ag']) \<and> deref (h[a := ag']) a = Some ag'
            \<and> InstructionsFunc ag' = f
            \<and> Name ag' = Name ag \<and> Model ag' = Model ag \<and> Provider ag' = Provider ag
            \<and> Config ag' = Config ag \<and> Instructions ag' = Instructions ag
            \<and> Functions ag' = Functions ag \<and> Memory ag' = Memory ag
            \<and> ParallelToolCalls ag' = ParallelToolCalls ag)
       \<and> (\<exists>ag'. WithParallelToolCalls a enabled h = Return (a, h[a := ag']) \<and> deref (h[a := ag']) a = Some ag'
            \<and> ParallelToolCalls ag' = enabled
            \<and> Name ag' = Name ag \<and> Model ag' = Model ag \<and> Provider ag' = Provider ag
            \<and> Config ag' = Config ag \<and> Instructions ag' = Instructions ag
            \<and> InstructionsFunc ag' = InstructionsFunc ag
            \<and> Functions ag' = Functions ag \<and> Memory ag' = Memory ag)"
proof -
  from assms have a: "a < length h" by (simp add: deref_def split: if_splits)
  have 1: "deref (h[a := x]) a = Some x" for x using a by (simp add: deref_def)
  have c: "\<exists>ag'. WithConfig a config h = Return (a, h[a := ag']) \<and> deref (h[a := ag']) a = Some ag'
            \<and> Config ag' = config
            \<and> Name ag' = Name ag \<and> Model ag' = Model ag \<and> Provider ag' = Provider ag
            \<and> Instructions ag' = Instructions ag \<and> InstructionsFunc ag' = InstructionsFunc ag
            \<and> Functions ag' = Functions ag \<and> Memory ag' = Memory ag
            \<and> ParallelToolCalls ag' = ParallelToolCalls ag"
    using assms by (intro exI [of _ "ag\<lparr>Config := config\<rparr>"]) (simp add: WithConfig_def 1)
  have i: "\<exists>ag'. WithInstructions a instructions h = Return (a, h[a := ag']) \<and> deref (h[a := ag']) a = Some ag'
            \<and> Instructions ag' = instructions
            \<and> Name ag' = Name ag \<and> Model ag' = Model ag \<and> Provider ag' = Provider ag
            \<and> Config ag' = Config ag \<and> InstructionsFunc ag' = InstructionsFunc ag
            \<and> Functions ag' = Functions ag \<and> Memory ag' = Memory ag
            \<and> ParallelToolCalls ag' = ParallelToolCalls ag"
    using assms by (intro exI [of _ "ag\<lparr>Instructions := instructions\<rparr>"]) (simp add: WithInstructions_def 1)
  have f: "\<exists>ag'. WithInstructionsFunc a f h = Return (a, h[a := ag']) \<and> deref (h[a := ag']) a = Some ag'
            \<and> InstructionsFunc ag' = f
            \<and> Name ag' = Name ag \<and> Model ag' = Model ag \<and> Provider ag' = Provider ag
            \<and> Config ag' = Config ag \<and> Instructions ag' = Instructions ag
            \<and> Functions ag' = Functions ag \<and> Memory ag' = Memory ag
            \<and> ParallelToolCalls ag' = ParallelToolCalls ag"
    using assms by (intro exI [of _ "ag\<lparr>InstructionsFunc := f\<rparr>"]) (simp add: WithInstructionsFunc_def 1)
  have p: "\<exists>ag'. WithParallelToolCalls a enabled h = Return (a, h[a := ag']) \<and> deref (h[a := ag']) a = Some ag'
            \<and> ParallelToolCalls ag' = enabled
            \<and> Name ag' = Name ag \<and> Model ag' = Model ag \<and> Provider ag' = Provider ag
            \<and> Config ag' = Config ag \<and> Instructions ag' = Instructions ag
            \<and> InstructionsFunc ag' = InstructionsFunc ag
            \<and> Functions ag' = Functions ag \<and> Memory ag' = Memory ag"
    using assms by (intro exI [of _ "ag\<lparr>ParallelToolCalls := enabled\<rparr>"]) (simp add: WithParallelToolCalls_def 1)
  from c i f p show ?thesis by (intro conjI)
qed

theorem builders_frame_witness:
  "deref [TestAgent] 0 = Some TestAgent
   \<and> (\<exists>ag'. WithConfig 0 (Some ()) [TestAgent] = Return (0, [TestAgent][0 := ag'])
          \<and> Config ag' = Some () \<and> Name ag' = ''TestAgent'' \<and> Functions ag' = nil_slice)
   \<and> (\<exists>ag'. WithInstructions 0 ''You are a helpful agent.'' [TestAgent]
            = Return (0, [TestAgent][0 := ag'])
          \<and> Instructions ag' = ''You are a helpful agent.'' \<and> Name ag' = ''TestAgent''
          \<and> ParallelToolCalls ag' = False)
   \<and> (\<exists>ag'. WithInstructionsFunc 0 (Some (\<lambda>contextVariables. ''You are a helpful agent.''))
            [TestAgent] = Return (0, [TestAgent][0 := ag'])
          \<and> InstructionsFunc ag' = Some (\<lambda>contextVariables. ''You are a helpful agent.'')
          \<and> Instructions ag' = [])
   \<and> (\<exists>ag'. WithParallelToolCalls 0 True [TestAgent] = Return (0, [TestAgent][0 := ag'])
          \<and> ParallelToolCalls ag' = True \<and> Model ag' = ''test-model'' \<and> Config ag' = None)"
proof -
  have h: "deref [TestAgent] 0 = Some TestAgent" by (simp add: deref_def)
  have t: "Name TestAgent = ''TestAgent''" "Functions TestAgent = nil_slice" "Instructions TestAgent = []"
    "ParallelToolCalls TestAgent = False" "Model TestAgent = ''test-model''" "Config TestAgent = None"
    by (simp_all add: TestAgent_def)
  show ?thesis
    using h builders_frame [OF h, of "Some ()" "''You are a helpful agent.''"
        "Some (\<lambda>contextVariables. ''You are a helpful agent.'')" True]
    unfolding t by blast
qed

section \<open>Registration\<close>

lemma deref_update: "deref h a = Some ag \<Longrightarrow> deref (h[a := x]) a = Some x"
  by (simp add: deref_def split: if_splits)

lemma WithFunctions_result:
  assumes "deref h a = Some ag" and "valid_slice arrs (Functions ag)"
  shows "\<exists>s arrs'. append_slice growslice zero_AgentFunction (Functions ag) fs arrs = Some (s, arrs')
           \<and> WithFunctions growslice a fs h arrs = Return (a, h[a := ag\<lparr>Functions := s\<rparr>], arrs')"
proof -
  from append_slice_total [OF assms(2)] obtain s arrs'
    where "append_slice growslice zero_AgentFunction (Functions ag) fs arrs = Some (s, arrs')"
    by blast
  with assms(1) show ?thesis by (simp add: WithFunctions_def)
qed

lemma registered_deref: "deref [RegisteredAgent] 0 = Some RegisteredAgent"
  by (simp add: deref_def)

lemma registered_valid: "valid_slice registered_arrays (Functions RegisteredAgent)"
  by (simp add: valid_slice_def registered_arrays_def RegisteredAgent_def)

lemma registered_read: "read_slice registered_arrays (Functions RegisteredAgent) = [testFunction]"
  by (simp add: read_slice_def registered_arrays_def RegisteredAgent_def)

text \<open>
  \<open>WithFunctions\<close> evaluated: with room in the backing array the tools are written
  in place, and on the nil slice of a new agent an array is allocated.
\<close>

lemma WithFunctions_in_place:
  "WithFunctions double_cap 0 [toolA, toolB] [RegisteredAgent] registered_arrays =
     Return (0,
       [RegisteredAgent\<lparr>Functions := \<lparr>sl_array = Some 0, sl_off = 0, sl_len = 3, sl_cap = 4\<rparr>\<rparr>],
       [[testFunction, toolA, toolB, zero_AgentFunction]])"
  by (simp add: WithFunctions_def deref_def append_slice_def valid_slice_def write_cells_def
      registered_arrays_def RegisteredAgent_def)

lemma WithFunctions_grows:
  "WithFunctions double_cap 0 [testFunction] [TestAgent] [] =
     Return (0,
       [TestAgent\<lparr>Functions := \<lparr>sl_array = Some 0, sl_off = 0, sl_len = 1, sl_cap = 1\<rparr>\<rparr>],
       [[testFunction]])"
  by (simp add: WithFunctions_def deref_def append_slice_def valid_slice_def read_slice_def
      nil_slice_def double_cap_def TestAgent_def)

text \<open>
  Two agents whose headers point into one array with room to spare, as an agent and a
  copy of it do: what the second registers overwrites what the first registered.
\<close>

lemma WithFunctions_shared_array:
  "WithFunctions double_cap 0 [toolA] [RegisteredAgent, RegisteredAgent] registered_arrays =
     Return (0,
       [RegisteredAgent\<lparr>Functions := \<lparr>sl_array = Some 0, sl_off = 0, sl_len = 2, sl_cap = 4\<rparr>\<rparr>,
        RegisteredAgent],
       [[testFunction, toolA, zero_AgentFunction, zero_AgentFunction]])
   \<and> tools_after
        (WithFunctions double_cap 1 [toolB]
           [RegisteredAgent\<lparr>Functions := \<lparr>sl_array = Some 0, sl_off = 0, sl_len = 2, sl_cap = 4\<rparr>\<rparr>,
            RegisteredAgent]
           [[testFunction, toolA, zero_AgentFunction, zero_AgentFunction]]) 0
       = Some [testFunction, toolB]"
  by (simp add: WithFunctions_def deref_def append_slice_def valid_slice_def write_cells_def
      read_slice_def tools_after_def registered_arrays_def RegisteredAgent_def)

text \<open>
  C6. For an agent \<open>ag\<close> at address \<open>a\<close> and any tools \<open>fs\<close>, \<open>WithFunctions\<close>
  returns the address it was given, and the tools of the agent there are its former
  tools followed by \<open>fs\<close> in argument order. The former tools are still in place,
  in their order, where the former header reads them. Every other field of the agent
  is as before. This is about the receiver: the cells written behind its last element
  are seen through every other header into the same backing array.
\<close>

theorem WithFunctions_appends:
  assumes "deref h a = Some ag" and "valid_slice arrs (Functions ag)"
  shows "\<exists>ag' arrs'.
           WithFunctions growslice a fs h arrs = Return (a, h[a := ag'], arrs')
         \<and> deref (h[a := ag']) a = Some ag'
         \<and> read_slice arrs' (Functions ag') = read_slice arrs (Functions ag) @ fs
         \<and> read_slice arrs' (Functions ag) = read_slice arrs (Functions ag)
         \<and> valid_slice arrs' (Functions ag')
         \<and> ag' = ag\<lparr>Functions := Functions ag'\<rparr>"
proof -
  from WithFunctions_result [OF assms] obtain s arrs'
    where ap: "append_slice growslice zero_AgentFunction (Functions ag) fs arrs = Some (s, arrs')"
      and w: "WithFunctions growslice a fs h arrs = Return (a, h[a := ag\<lparr>Functions := s\<rparr>], arrs')"
    by blast
  note r = append_slice_reads [OF assms(2) ap]
  show ?thesis
    using w r deref_update [OF assms(1)]
    by (intro exI [of _ "ag\<lparr>Functions := s\<rparr>"] exI [of _ arrs']) simp
qed

theorem WithFunctions_appends_witness:
  "deref [RegisteredAgent] 0 = Some RegisteredAgent
   \<and> valid_slice registered_arrays (Functions RegisteredAgent)
   \<and> read_slice registered_arrays (Functions RegisteredAgent) = [testFunction]
   \<and> (\<exists>ag' arrs'.
           WithFunctions double_cap 0 [toolA, toolB] [RegisteredAgent] registered_arrays
             = Return (0, [RegisteredAgent][0 := ag'], arrs')
         \<and> deref ([RegisteredAgent][0 := ag']) 0 = Some ag'
         \<and> read_slice arrs' (Functions ag') = [testFunction, toolA, toolB]
         \<and> read_slice arrs' (Functions RegisteredAgent) = [testFunction]
         \<and> valid_slice arrs' (Functions ag')
         \<and> ag' = RegisteredAgent\<lparr>Functions := Functions ag'\<rparr>)"
  using registered_deref registered_valid registered_read
    WithFunctions_appends [OF registered_deref registered_valid, of double_cap "[toolA, toolB]"]
  by (simp only: registered_read append_Cons append_Nil simp_thms)

text \<open>
  C5, as stated, fails: \<open>WithFunctions\<close> appends without looking at names. An agent
  that holds \<open>testFunction\<close> and registers it again holds two tools of that name.
\<close>

theorem duplicate_name_registered:
  "deref [RegisteredAgent] 0 = Some RegisteredAgent
   \<and> valid_slice registered_arrays (Functions RegisteredAgent)
   \<and> distinct (map af_Name (read_slice registered_arrays (Functions RegisteredAgent)))
   \<and> tool_names_after (WithFunctions double_cap 0 [testFunction] [RegisteredAgent] registered_arrays)
       = Some [''testFunction'', ''testFunction'']
   \<and> \<not> distinct [''testFunction'', ''testFunction'']"
  by (simp add: registered_deref registered_valid registered_read)
     (simp add: tool_names_after_def WithFunctions_def deref_def append_slice_def valid_slice_def
       write_cells_def read_slice_def registered_arrays_def RegisteredAgent_def testFunction_def)

text \<open>
  C5, amended. For an agent whose tool names are pairwise distinct, the tool names
  after \<open>WithFunctions\<close> are the former names followed by the names of the tools
  given, and they are pairwise distinct exactly when the names of the tools given are
  pairwise distinct and none of them is the name of a tool the agent already holds.
\<close>

theorem WithFunctions_distinct_names:
  assumes "deref h a = Some ag" and "valid_slice arrs (Functions ag)"
    and "distinct (map af_Name (read_slice arrs (Functions ag)))"
  shows "tool_names_after (WithFunctions growslice a fs h arrs)
           = Some (map af_Name (read_slice arrs (Functions ag)) @ map af_Name fs)
       \<and> (distinct (map af_Name (read_slice arrs (Functions ag)) @ map af_Name fs) \<longleftrightarrow>
            distinct (map af_Name fs)
            \<and> set (map af_Name (read_slice arrs (Functions ag))) \<inter> set (map af_Name fs) = {})"
proof -
  from WithFunctions_result [OF assms(1,2)] obtain s arrs'
    where ap: "append_slice growslice zero_AgentFunction (Functions ag) fs arrs = Some (s, arrs')"
      and w: "WithFunctions growslice a fs h arrs = Return (a, h[a := ag\<lparr>Functions := s\<rparr>], arrs')"
    by blast
  from append_slice_reads(1) [OF assms(2) ap]
  have "read_slice arrs' s = read_slice arrs (Functions ag) @ fs" .
  with w deref_update [OF assms(1)] assms(3) show ?thesis
    by (simp add: tool_names_after_def)
qed

theorem WithFunctions_distinct_names_witness:
  "deref [RegisteredAgent] 0 = Some RegisteredAgent
   \<and> valid_slice registered_arrays (Functions RegisteredAgent)
   \<and> distinct (map af_Name (read_slice registered_arrays (Functions RegisteredAgent)))
   \<and> tool_names_after (WithFunctions double_cap 0 [toolA, toolB] [RegisteredAgent] registered_arrays)
       = Some (map af_Name (read_slice registered_arrays (Functions RegisteredAgent))
               @ map af_Name [toolA, toolB])
   \<and> (distinct (map af_Name (read_slice registered_arrays (Functions RegisteredAgent))
                 @ map af_Name [toolA, toolB]) \<longleftrightarrow>
        distinct (map af_Name [toolA, toolB])
        \<and> set (map af_Name (read_slice registered_arrays (Functions RegisteredAgent)))
            \<inter> set (map af_Name [toolA, toolB]) = {})
   \<and> map af_Name (read_slice registered_arrays (Functions RegisteredAgent)) @ map af_Name [toolA, toolB]
       = [''testFunction'', ''toolA'', ''toolB'']
   \<and> distinct [''testFunction'', ''toolA'', ''toolB'']"
proof -
  have d: "distinct (map af_Name (read_slice registered_arrays (Functions RegisteredAgent)))"
    by (simp add: registered_read)
  have n: "map af_Name (read_slice registered_arrays (Functions RegisteredAgent)) @ map af_Name [toolA, toolB]
       = [''testFunction'', ''toolA'', ''toolB'']"
    by (simp add: registered_read testFunction_def toolA_def toolB_def)
  have e: "distinct [''testFunction'', ''toolA'', ''toolB'']" by simp
  show ?thesis
    using registered_deref registered_valid d n e
      WithFunctions_distinct_names [OF registered_deref registered_valid d, of double_cap "[toolA, toolB]"]
    by (intro conjI) (erule conjunct1 conjunct2 | assumption)+
qed

end
